theory Spec2Isabelle
  imports Main
begin

section \<open>Minipool withdrawal: an embedding of \<open>withdrawMinipool\<close>\<close>

text \<open>
  The development follows \<open>rocketpool-cli/minipool/withdraw.go\<close>. The function talks to
  the chain, to the operator and to the account manager; each of these collaborators is a
  field of the record \<open>env\<close>, holding the value the collaborator returns. A run of
  \<open>withdrawMinipool\<close> is a function of the environment and of a scheduler that resolves
  the \<open>select\<close> statement of the receive loop; it yields the list of observable events
  (lines printed, collaborator calls) and the value returned. Every collaborator call is
  taken to return; the deferred \<open>p.Cleanup()\<close> has no part in what is returned or printed
  and is left out.
\<close>

subsection \<open>Data\<close>

type_synonym address = nat
type_synonym txor = nat
type_synonym receipt = nat

text \<open>
  A Go \<open>error\<close> value. \<open>External m\<close> is an error handed back by a collaborator, with
  \<open>m\<close> its \<open>Error()\<close> text; \<open>New m\<close> is the value built by \<open>errors.New(m)\<close> inside
  \<open>withdrawMinipool\<close>.
\<close>

datatype error = External string | New string

fun Error :: "error \<Rightarrow> string" where
  "Error (External m) = m"
| "Error (New m) = m"

text \<open>
  Modelled from the spec: the status enumeration of package \<open>minipool\<close> is not among the
  sources. The three constants the function names are kept; every other lifecycle state
  is \<open>OtherStatus n\<close>.
\<close>

datatype MinipoolStatus = INITIALIZED | WITHDRAWN | TIMED_OUT | OtherStatus nat

record NodeStatus =
  Address :: address
  Status :: MinipoolStatus
  StatusType :: string
  DepositExists :: bool

record NodeWithdrawal =
  To :: address
  EtherAmount :: int
  RethAmount :: int
  RplAmount :: int
  Created :: int

subsection \<open>Library functions on strings\<close>

text \<open>\<open>strings.Join\<close>.\<close>

fun Join :: "string list \<Rightarrow> string \<Rightarrow> string" where
  "Join [] sep = []"
| "Join [x] sep = x"
| "Join (x # y # ys) sep = x @ sep @ Join (y # ys) sep"

text \<open>
  Lower-casing of one byte, as \<open>strings.ToLower\<close> and the flag \<open>(?i)\<close> act on ASCII.
  A byte outside ASCII is left as it is; Go yields other text there, which like the byte
  itself differs from every ASCII letter and digit, the only characters it is compared to.
\<close>

definition toLowerChar :: "char \<Rightarrow> char" where
  "toLowerChar c =
     (let n = (of_char c :: nat) in if 65 \<le> n \<and> n \<le> 90 then char_of (n + 32) else c)"

definition ToLower :: "string \<Rightarrow> string" where
  "ToLower s = map toLowerChar s"

text \<open>\<open>strconv.Itoa\<close>: the decimal rendering of an \<open>int\<close>.\<close>

definition digitChar :: "nat \<Rightarrow> char" where
  "digitChar d = char_of (48 + d)"

fun natToDec :: "nat \<Rightarrow> string" where
  "natToDec n = (if n < 10 then [digitChar n] else natToDec (n div 10) @ [digitChar (n mod 10)])"

declare natToDec.simps [simp del]

definition Itoa :: "int \<Rightarrow> string" where
  "Itoa i = (if i < 0 then CHR ''-'' # natToDec (nat (- i)) else natToDec (nat i))"

text \<open>
  \<open>strconv.Atoi\<close> on a 64-bit platform: an optional sign, then decimal digits. The result
  is the value and the error flag; a syntax error gives \<open>0\<close>, a range error gives the
  nearest bound.
\<close>

definition isDigit :: "char \<Rightarrow> bool" where
  "isDigit c = (48 \<le> (of_char c :: nat) \<and> (of_char c :: nat) \<le> 57)"

definition digitVal :: "char \<Rightarrow> nat" where
  "digitVal c = of_char c - 48"

definition decVal :: "string \<Rightarrow> nat" where
  "decVal ds = foldl (\<lambda>acc c. 10 * acc + digitVal c) 0 ds"

definition maxInt :: int where
  "maxInt = 2 ^ 63 - 1"

definition Atoi :: "string \<Rightarrow> int \<times> bool" where
  "Atoi s =
     (let (neg, ds) = (case s of
                         [] \<Rightarrow> (False, [])
                       | c # r \<Rightarrow> if c = CHR ''-'' then (True, r)
                                  else if c = CHR ''+'' then (False, r) else (False, s))
      in if ds = [] \<or> \<not> list_all isDigit ds then (0, True)
         else let v = (if neg then - int (decVal ds) else int (decVal ds))
              in if maxInt < v then (maxInt, True)
                 else if v < - maxInt - 1 then (- maxInt - 1, True)
                 else (v, False))"

text \<open>
  \<open>regexp\<close> matching, for the one shape of pattern the function builds:
  \<open>(?i)^(\<close>alternatives separated by \<open>|\<close>\<open>)$\<close>, the alternatives being plain text. Such a
  pattern matches a string exactly when the string equals one of the alternatives up to
  case. A pattern of another shape is outside this model and matches nothing.
\<close>

fun splitOn :: "char \<Rightarrow> string \<Rightarrow> string list" where
  "splitOn c [] = [[]]"
| "splitOn c (x # xs) =
     (if x = c then [] # splitOn c xs
      else (case splitOn c xs of [] \<Rightarrow> [[x]] | w # ws \<Rightarrow> (x # w) # ws))"

fun stripPrefix :: "string \<Rightarrow> string \<Rightarrow> string option" where
  "stripPrefix [] s = Some s"
| "stripPrefix (p # ps) [] = None"
| "stripPrefix (p # ps) (c # cs) = (if p = c then stripPrefix ps cs else None)"

definition stripSuffix :: "string \<Rightarrow> string \<Rightarrow> string option" where
  "stripSuffix suf s = map_option rev (stripPrefix (rev suf) (rev s))"

definition MatchString :: "string \<Rightarrow> string \<Rightarrow> bool" where
  "MatchString pat s =
     (case stripPrefix ''(?i)^('' pat of
        None \<Rightarrow> False
      | Some r \<Rightarrow> (case stripSuffix '')$'' r of
                    None \<Rightarrow> False
                  | Some body \<Rightarrow> ToLower s \<in> set (map ToLower (splitOn CHR ''|'' body))))"

subsection \<open>Collaborators and observable events\<close>

text \<open>
  The collaborators of \<open>withdrawMinipool\<close>, as the values they return.
  \<^item> \<open>newProvider\<close>: the error of \<open>services.NewProvider\<close>, if any;
  \<^item> \<open>getWithdrawalAllowed\<close>: the call of \<open>getWithdrawalAllowed\<close> on the settings contract;
  \<^item> \<open>getMinipoolAddresses\<close>: \<open>node.GetMinipoolAddresses\<close> for the node account;
  \<^item> \<open>getNodeStatus\<close>: \<open>minipool.GetNodeStatus\<close>, per address;
  \<^item> \<open>prompt\<close>: \<open>cliutils.Prompt\<close>, from the prompt text, the validation pattern and
    the error text to the response it hands back;
  \<^item> \<open>getNodeAccountTransactor\<close>: \<open>p.AM.GetNodeAccountTransactor\<close>, per call (the
    argument is the number of the loop iteration that calls it);
  \<^item> \<open>executeContractTransaction\<close>, \<open>getTransactionEvents\<close>: the two helpers of
    package \<open>eth\<close>;
  \<^item> \<open>hex\<close>: \<open>Address.Hex\<close>; \<open>title\<close>: \<open>strings.Title\<close>;
  \<^item> \<open>fmtVerbs\<close>: what \<open>fmt.Sprintf\<close> prints for the rest of a format, after the
    verb of its one operand, when that rest holds a \<open>%\<close> (the arguments are the rest
    of the format and the operand, which an explicit argument index reaches again);
  \<^item> \<open>successLine\<close>: the rendering of the success line, which formats the three
    amounts as floating-point numbers.
\<close>

record env =
  newProvider :: "error option"
  getWithdrawalAllowed :: "error + bool"
  getMinipoolAddresses :: "error + address list"
  getNodeStatus :: "address \<Rightarrow> error + NodeStatus"
  prompt :: "string \<Rightarrow> string \<Rightarrow> string \<Rightarrow> string"
  getNodeAccountTransactor :: "nat \<Rightarrow> error + txor"
  executeContractTransaction :: "txor \<Rightarrow> address \<Rightarrow> error + receipt"
  getTransactionEvents :: "receipt \<Rightarrow> address \<Rightarrow> error + NodeWithdrawal list"
  hex :: "address \<Rightarrow> string"
  title :: "string \<Rightarrow> string"
  fmtVerbs :: "string \<Rightarrow> string \<Rightarrow> string"
  successLine :: "NodeWithdrawal \<Rightarrow> address \<Rightarrow> string"

datatype event =
    Printed string
  | WithdrawalAllowedQueried
  | AddressesQueried
  | StatusQueried address
  | Prompted string string string
  | TransactorRequested nat
  | TransactionSent txor address
  | EventsRequested receipt address

text \<open>What a run ends with: the returned \<open>error\<close> (\<open>None\<close> is \<open>nil\<close>), or a panic.\<close>

datatype outcome = Returned "error option" | Panicked string

subsection \<open>Status collection (lines 65 to 90)\<close>

text \<open>The test of line 84.\<close>

definition withdrawable :: "NodeStatus \<Rightarrow> bool" where
  "withdrawable nodeStatus =
     ((Status nodeStatus = INITIALIZED \<or> Status nodeStatus = WITHDRAWN
        \<or> Status nodeStatus = TIMED_OUT) \<and> DepositExists nodeStatus)"

text \<open>
  One goroutine per address runs the query and then blocks sending: on its own channel
  when the query succeeded, on the shared error channel when it failed. The receive loop
  returns at the first error it receives, so until then every failed goroutine is still
  blocked on the error channel: \<open>pendingErrors\<close> lists their errors.
\<close>

definition pendingErrors :: "env \<Rightarrow> address list \<Rightarrow> error list" where
  "pendingErrors env addrs =
     List.map_filter (\<lambda>a. case getNodeStatus env a of Inl e \<Rightarrow> Some e | Inr _ \<Rightarrow> None) addrs"

text \<open>
  The \<open>select\<close> of iteration \<open>mi\<close> waits until a case can proceed and picks among the
  ready ones; which one, and which blocked sender the error channel serves, is up to the
  Go runtime. A scheduler fixes these choices: \<open>sched mi = (takeError, k)\<close> says whether
  the error case is taken when both cases are ready, and which blocked sender is served.
\<close>

type_synonym scheduler = "nat \<Rightarrow> bool \<times> nat"

definition selectReceive :: "env \<Rightarrow> scheduler \<Rightarrow> address list \<Rightarrow> nat \<Rightarrow> error + NodeStatus" where
  "selectReceive env sched addrs mi =
     (let errs = pendingErrors env addrs; (takeError, k) = sched mi
      in case getNodeStatus env (addrs ! mi) of
           Inr nodeStatus \<Rightarrow>
             if takeError \<and> errs \<noteq> [] then Inl (errs ! (k mod length errs)) else Inr nodeStatus
         | Inl _ \<Rightarrow> Inl (errs ! (k mod length errs)))"

function receiveStatuses ::
  "env \<Rightarrow> scheduler \<Rightarrow> address list \<Rightarrow> nat \<Rightarrow> NodeStatus list \<Rightarrow> error + NodeStatus list" where
  "receiveStatuses env sched addrs mi withdrawableMinipools =
     (if mi < length addrs then
        (case selectReceive env sched addrs mi of
           Inr nodeStatus \<Rightarrow>
             receiveStatuses env sched addrs (mi + 1)
               (if withdrawable nodeStatus then withdrawableMinipools @ [nodeStatus]
                else withdrawableMinipools)
         | Inl err \<Rightarrow> Inl err)
      else Inr withdrawableMinipools)"
  by pat_completeness auto
termination
  by (relation "measure (\<lambda>(env, sched, addrs, mi, acc). length addrs - mi)") auto

declare receiveStatuses.simps [simp del]

subsection \<open>Selection (lines 98 to 119)\<close>

definition promptHeader :: string where
  "promptHeader = ''Please select a minipool to withdraw from by entering a number, or enter 'A' for all (excluding initialized):''"

definition promptError :: string where
  "promptError = ''Please enter a minipool number or 'A' for all (excluding initialized)''"

definition promptLines :: "env \<Rightarrow> NodeStatus list \<Rightarrow> string list" where
  "promptLines env wm =
     promptHeader #
     map (\<lambda>(mi, minipoolStatus).
            Itoa (int mi + 1) @ '': '' @ hex env (Address minipoolStatus)
              @ '' ('' @ title env (StatusType minipoolStatus) @ '')'')
         (enumerate 0 wm)"

definition options :: "NodeStatus list \<Rightarrow> string list" where
  "options wm = map (\<lambda>mi. Itoa (int mi + 1)) [0..<length wm]"

definition selectionPattern :: "NodeStatus list \<Rightarrow> string" where
  "selectionPattern wm = ''(?i)^('' @ Join (options wm) ''|'' @ ''|a|all)$''"

definition promptResponse :: "env \<Rightarrow> NodeStatus list \<Rightarrow> string" where
  "promptResponse env wm =
     prompt env (Join (promptLines env wm) [CHR 0x0A]) (selectionPattern wm) promptError"

text \<open>
  Lines 108 to 118. \<open>response[:1]\<close> panics on the empty string, and
  \<open>withdrawableMinipools[index - 1]\<close> panics when \<open>index - 1\<close> is not an index of the
  slice (the error of \<open>Atoi\<close> is dropped, so \<open>index\<close> is \<open>0\<close> or a bound of \<open>int\<close> for a
  response that is not a number).
\<close>

definition resolveAddresses :: "NodeStatus list \<Rightarrow> string \<Rightarrow> string + address list" where
  "resolveAddresses wm response =
     (if response = [] then Inl ''slice bounds out of range''
      else if ToLower (take 1 response) = ''a'' then
        Inr (map Address (filter (\<lambda>minipoolStatus. Status minipoolStatus \<noteq> INITIALIZED) wm))
      else
        (let index = fst (Atoi response)
         in if 1 \<le> index \<and> index \<le> int (length wm)
            then Inr [Address (wm ! nat (index - 1))]
            else Inl ''index out of range''))"

subsection \<open>Withdrawal loop (lines 127 to 162)\<close>

text \<open>
  The three error lines are built by \<open>fmt.Sprintf(prefix + err.Error(), address.Hex())\<close>:
  the text of the error is part of the format. The prefix holds the verb \<open>%s\<close> of the
  one operand; text of the error without \<open>%\<close> is copied as it is, and what \<open>fmt\<close>
  prints for text with \<open>%\<close> is the collaborator \<open>fmtVerbs\<close>.
\<close>

definition formatRest :: "env \<Rightarrow> string \<Rightarrow> string \<Rightarrow> string" where
  "formatRest env t operand = (if CHR ''%'' \<in> set t then fmtVerbs env t operand else t)"

definition transactorErrorLine :: "env \<Rightarrow> address \<Rightarrow> error \<Rightarrow> string" where
  "transactorErrorLine env a err =
     ''Error creating transactor for minipool '' @ hex env a @ '': ''
       @ formatRest env (Error err) (hex env a)"

definition transactionErrorLine :: "env \<Rightarrow> address \<Rightarrow> error \<Rightarrow> string" where
  "transactionErrorLine env a err =
     ''Error withdrawing deposit from minipool '' @ hex env a @ '': ''
       @ formatRest env (Error err) (hex env a)"

definition eventErrorLine :: "env \<Rightarrow> address \<Rightarrow> error \<Rightarrow> string" where
  "eventErrorLine env a err =
     ''Error retrieving node deposit withdrawal event for minipool '' @ hex env a @ '': ''
       @ formatRest env (Error err) (hex env a)"

definition noEventLine :: "env \<Rightarrow> address \<Rightarrow> string" where
  "noEventLine env a =
     ''Could not retrieve node deposit withdrawal event for minipool '' @ hex env a"

definition withdrawingLine :: "env \<Rightarrow> address \<Rightarrow> string" where
  "withdrawingLine env a = ''Withdrawing deposit from minipool '' @ hex env a @ ''...''"

text \<open>
  The body of the loop for iteration \<open>mi\<close> and address \<open>a\<close>: the error line it appends
  to \<open>withdrawErrors\<close>, if any, and the events of the iteration. The decoded events
  are of type \<open>NodeWithdrawal\<close>, the prototype handed to \<open>GetTransactionEvents\<close>, so
  the type assertion of line 149 is not a branch of its own.
\<close>

definition withdrawOne :: "env \<Rightarrow> nat \<Rightarrow> address \<Rightarrow> string option \<times> event list" where
  "withdrawOne env mi a =
     (case getNodeAccountTransactor env mi of
        Inl err \<Rightarrow> (Some (transactorErrorLine env a err), [TransactorRequested mi])
      | Inr txor \<Rightarrow>
          (case executeContractTransaction env txor a of
             Inl err \<Rightarrow>
               (Some (transactionErrorLine env a err),
                [TransactorRequested mi, Printed (withdrawingLine env a), TransactionSent txor a])
           | Inr txReceipt \<Rightarrow>
               (case getTransactionEvents env txReceipt a of
                  Inl err \<Rightarrow>
                    (Some (eventErrorLine env a err),
                     [TransactorRequested mi, Printed (withdrawingLine env a),
                      TransactionSent txor a, EventsRequested txReceipt a])
                | Inr nodeWithdrawalEvents \<Rightarrow>
                    if length nodeWithdrawalEvents = 0 then
                      (Some (noEventLine env a),
                       [TransactorRequested mi, Printed (withdrawingLine env a),
                        TransactionSent txor a, EventsRequested txReceipt a])
                    else
                      (None,
                       [TransactorRequested mi, Printed (withdrawingLine env a),
                        TransactionSent txor a, EventsRequested txReceipt a,
                        Printed (successLine env (nodeWithdrawalEvents ! 0) a)]))))"

function withdrawLoop ::
  "env \<Rightarrow> address list \<Rightarrow> nat \<Rightarrow> string list \<times> event list \<Rightarrow> string list \<times> event list" where
  "withdrawLoop env addrs mi (withdrawErrors, tr) =
     (if mi < length addrs then
        (let (e, evs) = withdrawOne env mi (addrs ! mi)
         in withdrawLoop env addrs (mi + 1)
              (case e of None \<Rightarrow> withdrawErrors | Some line \<Rightarrow> withdrawErrors @ [line],
               tr @ evs))
      else (withdrawErrors, tr))"
  by pat_completeness auto
termination
  by (relation "measure (\<lambda>(env, addrs, mi, st). length addrs - mi)") auto

declare withdrawLoop.simps [simp del]

definition withdrawErrorsHeader :: string where
  "withdrawErrorsHeader = ''Error withdrawing deposits from one or more minipools:''"

text \<open>Lines 127 to 166: the loop and the return.\<close>

definition withdrawDeposits :: "env \<Rightarrow> address list \<Rightarrow> event list \<times> outcome" where
  "withdrawDeposits env addrs =
     (let (withdrawErrors, tr) = withdrawLoop env addrs 0 ([withdrawErrorsHeader], [])
      in (tr, if length withdrawErrors > 1
              then Returned (Some (New (Join withdrawErrors [CHR 0x0A])))
              else Returned None))"

subsection \<open>The whole function\<close>

definition disabledLine :: string where
  "disabledLine = ''Node withdrawals are currently disabled in Rocket Pool''"

definition noneAvailableLine :: string where
  "noneAvailableLine = ''No minipools are currently available for withdrawal''"

definition noneToWithdrawLine :: string where
  "noneToWithdrawLine = ''No minipools to withdraw''"

text \<open>Lines 92 to 166, from the filtered statuses on.\<close>

definition selectAndWithdraw :: "env \<Rightarrow> NodeStatus list \<Rightarrow> event list \<times> outcome" where
  "selectAndWithdraw env wm =
     (if length wm = 0 then ([Printed noneAvailableLine], Returned None)
      else
        (let response = promptResponse env wm;
             asked = Prompted (Join (promptLines env wm) [CHR 0x0A]) (selectionPattern wm) promptError
         in case resolveAddresses wm response of
              Inl p \<Rightarrow> ([asked], Panicked p)
            | Inr withdrawMinipoolAddresses \<Rightarrow>
                if length withdrawMinipoolAddresses = 0
                then ([asked, Printed noneToWithdrawLine], Returned None)
                else (let (tr, r) = withdrawDeposits env withdrawMinipoolAddresses
                      in (asked # tr, r))))"

text \<open>
  Lines 32 to 168. The goroutines of lines 68 to 77 are all started before the first
  receive; their queries are listed in the order the goroutines are started.
\<close>

definition withdrawMinipool :: "env \<Rightarrow> scheduler \<Rightarrow> event list \<times> outcome" where
  "withdrawMinipool env sched =
     (case newProvider env of
        Some err \<Rightarrow> ([], Returned (Some err))
      | None \<Rightarrow>
          (case getWithdrawalAllowed env of
             Inl err \<Rightarrow>
               ([WithdrawalAllowedQueried],
                Returned (Some (New (''Error checking node withdrawals enabled status: '' @ Error err))))
           | Inr withdrawalsAllowed \<Rightarrow>
               if \<not> withdrawalsAllowed
               then ([WithdrawalAllowedQueried, Printed disabledLine], Returned None)
               else
                 (case getMinipoolAddresses env of
                    Inl err \<Rightarrow> ([WithdrawalAllowedQueried, AddressesQueried], Returned (Some err))
                  | Inr minipoolAddresses \<Rightarrow>
                      (let started = [WithdrawalAllowedQueried, AddressesQueried]
                                       @ map StatusQueried minipoolAddresses
                       in case receiveStatuses env sched minipoolAddresses 0 [] of
                            Inl err \<Rightarrow> (started, Returned (Some err))
                          | Inr withdrawableMinipools \<Rightarrow>
                              (let (tr, r) = selectAndWithdraw env withdrawableMinipools
                               in (started @ tr, r))))))"

subsection \<open>Notions used in the statements\<close>

text \<open>The statuses of the queries that succeed, in the order of the address list.\<close>

fun collected :: "env \<Rightarrow> address list \<Rightarrow> NodeStatus list" where
  "collected env [] = []"
| "collected env (a # as) =
     (case getNodeStatus env a of
        Inr nodeStatus \<Rightarrow> nodeStatus # collected env as
      | Inl _ \<Rightarrow> collected env as)"

text \<open>The events up to the start of the last goroutine.\<close>

definition started :: "address list \<Rightarrow> event list" where
  "started addrs = [WithdrawalAllowedQueried, AddressesQueried] @ map StatusQueried addrs"

text \<open>The iterations that asked for a transactor, and the addresses a transaction went to.\<close>

fun attempts :: "event list \<Rightarrow> nat list" where
  "attempts [] = []"
| "attempts (TransactorRequested mi # evs) = mi # attempts evs"
| "attempts (_ # evs) = attempts evs"

fun sentTo :: "event list \<Rightarrow> address list" where
  "sentTo [] = []"
| "sentTo (TransactionSent t a # evs) = a # sentTo evs"
| "sentTo (_ # evs) = sentTo evs"

fun printed :: "event list \<Rightarrow> string list" where
  "printed [] = []"
| "printed (Printed line # evs) = line # printed evs"
| "printed (_ # evs) = printed evs"

fun prompts :: "event list \<Rightarrow> nat" where
  "prompts [] = 0"
| "prompts (Prompted t p e # evs) = Suc (prompts evs)"
| "prompts (_ # evs) = prompts evs"

text \<open>The error lines of the loop over \<open>addrs\<close>, from iteration \<open>mi\<close> on.\<close>

definition failures :: "env \<Rightarrow> address list \<Rightarrow> nat \<Rightarrow> string list" where
  "failures env addrs mi =
     List.map_filter (\<lambda>i. fst (withdrawOne env i (addrs ! i))) [mi..<length addrs]"

text \<open>The events of the loop over \<open>addrs\<close>, from iteration \<open>mi\<close> on.\<close>

definition loopEvents :: "env \<Rightarrow> address list \<Rightarrow> nat \<Rightarrow> event list" where
  "loopEvents env addrs mi =
     concat (map (\<lambda>i. snd (withdrawOne env i (addrs ! i))) [mi..<length addrs])"

subsection \<open>Sample environments\<close>

definition sampleStatus :: "address \<Rightarrow> NodeStatus" where
  "sampleStatus a =
     \<lparr>Address = a,
      Status = (if a = 10 then INITIALIZED else if a = 20 then WITHDRAWN
                else if a = 40 then TIMED_OUT else OtherStatus 0),
      StatusType = (if a = 10 then ''initialized'' else if a = 20 then ''withdrawn''
                    else if a = 40 then ''timed out'' else ''staking''),
      DepositExists = (a \<noteq> 50)\<rparr>"

definition sampleEnv :: env where
  "sampleEnv =
     \<lparr>newProvider = None,
      getWithdrawalAllowed = Inr True,
      getMinipoolAddresses = Inr [10, 20, 30, 40],
      getNodeStatus = (\<lambda>a. Inr (sampleStatus a)),
      prompt = (\<lambda>text pattern err. ''A''),
      getNodeAccountTransactor = (\<lambda>mi. Inr 9),
      executeContractTransaction = (\<lambda>t a. if a = 20 then Inl (External ''reverted'') else Inr (100 + a)),
      getTransactionEvents =
        (\<lambda>r a. Inr [\<lparr>To = a, EtherAmount = 16, RethAmount = 0, RplAmount = 3, Created = 1\<rparr>]),
      hex = natToDec,
      title = (\<lambda>s. s),
      fmtVerbs = (\<lambda>s operand. s),
      successLine = (\<lambda>ev a. ''Successfully withdrew deposit from minipool '' @ natToDec a)\<rparr>"

definition statusFirst :: scheduler where
  "statusFirst mi = (False, 0)"

definition errorFirst :: scheduler where
  "errorFirst mi = (True, 0)"

definition failingQuery :: "address \<Rightarrow> error + NodeStatus" where
  "failingQuery a = (if a = 30 then Inl (External ''timeout'') else Inr (sampleStatus a))"

definition sampleWithdrawable :: "NodeStatus list" where
  "sampleWithdrawable = [sampleStatus 10, sampleStatus 20, sampleStatus 40]"

text \<open>
  An environment in which the operator picks item \<open>2\<close> and the account manager refuses
  the transactor with an error whose text is \<open>at %[1]s\<close>. In a format, \<open>%[1]s\<close>
  prints the first operand once more; \<open>fmtIndexOne\<close> is what \<open>fmt.Sprintf\<close> prints
  for that text.
\<close>

definition fmtIndexOne :: "string \<Rightarrow> string \<Rightarrow> string" where
  "fmtIndexOne t operand = (if t = ''at %[1]s'' then ''at '' @ operand else t)"

definition percentEnv :: env where
  "percentEnv =
     sampleEnv\<lparr>prompt := (\<lambda>text pattern err. ''2''),
               getNodeAccountTransactor := (\<lambda>mi. Inl (External ''at %[1]s'')),
               fmtVerbs := fmtIndexOne\<rparr>"

section \<open>Status collection: the receive loop\<close>

lemma pendingErrors_set:
  "set (pendingErrors env addrs) = {e. \<exists>a\<in>set addrs. getNodeStatus env a = Inl e}"
  by (force simp: pendingErrors_def List.map_filter_def image_iff split: sum.splits)

lemma pendingErrors_empty:
  assumes "\<forall>a\<in>set addrs. \<exists>ns. getNodeStatus env a = Inr ns"
  shows "pendingErrors env addrs = []"
proof -
  from assms have "set (pendingErrors env addrs) = {}"
    unfolding pendingErrors_set by force
  then show ?thesis by simp
qed

lemma selectReceive_Inr:
  "selectReceive env sched addrs mi = Inr ns \<Longrightarrow> getNodeStatus env (addrs ! mi) = Inr ns"
  by (auto simp: selectReceive_def Let_def split: prod.splits sum.splits if_splits)

lemma selectReceive_Inl:
  assumes "mi < length addrs" and "selectReceive env sched addrs mi = Inl e"
  shows "\<exists>a\<in>set addrs. getNodeStatus env a = Inl e"
proof -
  obtain takeError k where s: "sched mi = (takeError, k)" by (cases "sched mi")
  let ?errs = "pendingErrors env addrs"
  have "?errs \<noteq> [] \<and> e = ?errs ! (k mod length ?errs)"
  proof (cases "getNodeStatus env (addrs ! mi)")
    case (Inl e')
    with assms(1) have "e' \<in> set ?errs" unfolding pendingErrors_set by auto
    then have "?errs \<noteq> []" by auto
    moreover from Inl assms(2) s have "e = ?errs ! (k mod length ?errs)"
      by (simp add: selectReceive_def Let_def)
    ultimately show ?thesis by simp
  next
    case (Inr ns)
    with assms(2) s show ?thesis
      by (auto simp: selectReceive_def Let_def split: if_splits)
  qed
  then have "e \<in> set ?errs" by simp
  then show ?thesis unfolding pendingErrors_set by simp
qed

lemma selectReceive_all_ok:
  assumes "\<forall>a\<in>set addrs. \<exists>ns. getNodeStatus env a = Inr ns" and "mi < length addrs"
  shows "\<exists>ns. getNodeStatus env (addrs ! mi) = Inr ns \<and> selectReceive env sched addrs mi = Inr ns"
proof -
  from assms(1) have "pendingErrors env addrs = []" by (rule pendingErrors_empty)
  moreover from assms obtain ns where "getNodeStatus env (addrs ! mi) = Inr ns" by force
  ultimately show ?thesis
    by (simp add: selectReceive_def Let_def split: prod.splits)
qed

lemma collected_all_ok:
  "\<forall>a\<in>set addrs. \<exists>ns. getNodeStatus env a = Inr ns \<Longrightarrow>
     map Inr (collected env addrs) = map (getNodeStatus env) addrs"
  by (induction addrs) auto

lemma receiveStatuses_Inl:
  "receiveStatuses env sched addrs mi acc = Inl e \<Longrightarrow> \<exists>a\<in>set addrs. getNodeStatus env a = Inl e"
proof (induction env sched addrs mi acc rule: receiveStatuses.induct)
  case (1 env sched addrs mi acc)
  show ?case
  proof (cases "mi < length addrs")
    case True
    show ?thesis
    proof (cases "selectReceive env sched addrs mi")
      case (Inl e')
      with True "1.prems" have "e' = e" by (subst (asm) receiveStatuses.simps) simp
      with Inl True show ?thesis by (simp add: selectReceive_Inl)
    next
      case (Inr ns)
      with True "1.prems" "1.IH"[OF True Inr] show ?thesis
        by (subst (asm) receiveStatuses.simps) simp
    qed
  next
    case False
    with "1.prems" show ?thesis by (subst (asm) receiveStatuses.simps) simp
  qed
qed

lemma receiveStatuses_Inr:
  "receiveStatuses env sched addrs mi acc = Inr wm \<Longrightarrow>
     (\<forall>a\<in>set (drop mi addrs). \<exists>ns. getNodeStatus env a = Inr ns) \<and>
     wm = acc @ filter withdrawable (collected env (drop mi addrs))"
proof (induction env sched addrs mi acc rule: receiveStatuses.induct)
  case (1 env sched addrs mi acc)
  show ?case
  proof (cases "mi < length addrs")
    case True
    then have d: "drop mi addrs = addrs ! mi # drop (mi + 1) addrs"
      by (simp add: Cons_nth_drop_Suc)
    show ?thesis
    proof (cases "selectReceive env sched addrs mi")
      case (Inl e')
      with True "1.prems" show ?thesis by (subst (asm) receiveStatuses.simps) simp
    next
      case (Inr ns)
      then have q: "getNodeStatus env (addrs ! mi) = Inr ns" by (rule selectReceive_Inr)
      from True Inr "1.prems" have
        "receiveStatuses env sched addrs (mi + 1) (if withdrawable ns then acc @ [ns] else acc) = Inr wm"
        by (subst (asm) receiveStatuses.simps) simp
      from "1.IH"[OF True Inr this] q show ?thesis by (simp add: d)
    qed
  next
    case False
    with "1.prems" show ?thesis by (subst (asm) receiveStatuses.simps) simp
  qed
qed

lemma receiveStatuses_all_ok:
  assumes "\<forall>a\<in>set addrs. \<exists>ns. getNodeStatus env a = Inr ns"
  shows "receiveStatuses env sched addrs 0 [] = Inr (filter withdrawable (collected env addrs))"
proof (cases "receiveStatuses env sched addrs 0 []")
  case (Inl e)
  then have "\<exists>a\<in>set addrs. getNodeStatus env a = Inl e" by (rule receiveStatuses_Inl)
  with assms show ?thesis by force
next
  case (Inr wm)
  from receiveStatuses_Inr[OF this] Inr show ?thesis by simp
qed

lemma receiveStatuses_some_failed:
  assumes "a \<in> set addrs" and "getNodeStatus env a = Inl e0"
  shows "\<exists>e. (\<exists>a\<in>set addrs. getNodeStatus env a = Inl e) \<and>
             receiveStatuses env sched addrs 0 [] = Inl e"
proof (cases "receiveStatuses env sched addrs 0 []")
  case (Inl e)
  with receiveStatuses_Inl[OF Inl] show ?thesis by simp
next
  case (Inr wm)
  from receiveStatuses_Inr[OF this] assms show ?thesis by force
qed

section \<open>The function up to the selection\<close>

lemma withdrawMinipool_received:
  assumes "newProvider env = None" and "getWithdrawalAllowed env = Inr True"
    and "getMinipoolAddresses env = Inr addrs"
  shows "withdrawMinipool env sched =
           (case receiveStatuses env sched addrs 0 [] of
              Inl err \<Rightarrow> (started addrs, Returned (Some err))
            | Inr wm \<Rightarrow> (started addrs @ fst (selectAndWithdraw env wm),
                          snd (selectAndWithdraw env wm)))"
  using assms
  by (simp add: withdrawMinipool_def started_def Let_def split: sum.splits prod.splits)

text \<open>
  Claim C1. For every address list and every scheduler, the receive loop either takes one
  status per address, in the order of the address list, and hands their withdrawable
  ones on to the selection, or it returns the error of a failed query and the function
  returns that error without prompting or sending anything. For the empty list it yields
  the empty sequence.
\<close>

theorem status_collection_all_or_nothing:
  assumes "newProvider env = None" and "getWithdrawalAllowed env = Inr True"
    and "getMinipoolAddresses env = Inr addrs"
  shows "((\<exists>statuses. map (getNodeStatus env) addrs = map Inr statuses
             \<and> length statuses = length addrs
             \<and> receiveStatuses env sched addrs 0 [] = Inr (filter withdrawable statuses)
             \<and> withdrawMinipool env sched =
                 (started addrs @ fst (selectAndWithdraw env (filter withdrawable statuses)),
                  snd (selectAndWithdraw env (filter withdrawable statuses))))
          \<or> (\<exists>e. (\<exists>a\<in>set addrs. getNodeStatus env a = Inl e)
                 \<and> receiveStatuses env sched addrs 0 [] = Inl e
                 \<and> withdrawMinipool env sched = (started addrs, Returned (Some e))))
         \<and> receiveStatuses env sched [] 0 [] = Inr []"
proof (intro conjI)
  show "receiveStatuses env sched [] 0 [] = Inr []"
    by (subst receiveStatuses.simps) simp
next
  note run = withdrawMinipool_received[OF assms, of sched]
  show "(\<exists>statuses. map (getNodeStatus env) addrs = map Inr statuses
             \<and> length statuses = length addrs
             \<and> receiveStatuses env sched addrs 0 [] = Inr (filter withdrawable statuses)
             \<and> withdrawMinipool env sched =
                 (started addrs @ fst (selectAndWithdraw env (filter withdrawable statuses)),
                  snd (selectAndWithdraw env (filter withdrawable statuses))))
          \<or> (\<exists>e. (\<exists>a\<in>set addrs. getNodeStatus env a = Inl e)
                 \<and> receiveStatuses env sched addrs 0 [] = Inl e
                 \<and> withdrawMinipool env sched = (started addrs, Returned (Some e)))"
  proof (cases "receiveStatuses env sched addrs 0 []")
    case (Inl e)
    from receiveStatuses_Inl[OF Inl] Inl run show ?thesis by simp
  next
    case (Inr wm)
    from receiveStatuses_Inr[OF Inr]
    have ok: "\<forall>a\<in>set addrs. \<exists>ns. getNodeStatus env a = Inr ns"
      and wm: "wm = filter withdrawable (collected env addrs)" by simp_all
    from collected_all_ok[OF ok]
    have m: "map (getNodeStatus env) addrs = map Inr (collected env addrs)" by simp
    then have "length (map (getNodeStatus env) addrs) = length (map Inr (collected env addrs) :: (error + NodeStatus) list)"
      by simp
    then have l: "length (collected env addrs) = length addrs" by simp
    from Inr run wm have
      "withdrawMinipool env sched =
         (started addrs @ fst (selectAndWithdraw env (filter withdrawable (collected env addrs))),
          snd (selectAndWithdraw env (filter withdrawable (collected env addrs))))"
      by simp
    with m l Inr wm show ?thesis by blast
  qed
qed

theorem status_collection_all_or_nothing_witness:
  "newProvider sampleEnv = None \<and> getWithdrawalAllowed sampleEnv = Inr True
   \<and> getMinipoolAddresses sampleEnv = Inr [10, 20, 30, 40]
   \<and> receiveStatuses sampleEnv errorFirst [10, 20, 30, 40] 0 []
       = Inr [sampleStatus 10, sampleStatus 20, sampleStatus 40]"
proof -
  have h1: "newProvider sampleEnv = None" by (simp add: sampleEnv_def)
  have h2: "getWithdrawalAllowed sampleEnv = Inr True" by (simp add: sampleEnv_def)
  have h3: "getMinipoolAddresses sampleEnv = Inr [10, 20, 30, 40]" by (simp add: sampleEnv_def)
  have q: "getNodeStatus sampleEnv = (\<lambda>a. Inr (sampleStatus a))" by (simp add: sampleEnv_def)
  have w: "withdrawable (sampleStatus 10)" "withdrawable (sampleStatus 20)"
    "\<not> withdrawable (sampleStatus 30)" "withdrawable (sampleStatus 40)"
    by (simp_all add: withdrawable_def sampleStatus_def)
  from status_collection_all_or_nothing[OF h1 h2 h3, of errorFirst]
  have "receiveStatuses sampleEnv errorFirst [10, 20, 30, 40] 0 []
          = Inr [sampleStatus 10, sampleStatus 20, sampleStatus 40]"
    by (auto simp: q w)
  with h1 h2 h3 show ?thesis by simp
qed

text \<open>
  Claim C6, as stated, fails: when the query for address \<open>30\<close> fails with the error
  \<open>timeout\<close>, the function returns that very error value, not a new error wrapping it.
\<close>

theorem status_error_unwrapped_counterexample:
  "getNodeStatus (sampleEnv\<lparr>getNodeStatus := failingQuery\<rparr>) 30 = Inl (External ''timeout'')
   \<and> snd (withdrawMinipool (sampleEnv\<lparr>getNodeStatus := failingQuery\<rparr>) statusFirst)
       = Returned (Some (External ''timeout''))"
  by code_simp

text \<open>
  Claim C6, amended. If a status query fails, the function fails as a whole: it returns,
  as it is, the error of a failed query (the first error the receive loop takes from the
  error channel), and neither prompts nor sends a transaction.
\<close>

theorem status_error_returned_as_is:
  assumes "newProvider env = None" and "getWithdrawalAllowed env = Inr True"
    and "getMinipoolAddresses env = Inr addrs"
    and "a \<in> set addrs" and "getNodeStatus env a = Inl e0"
  shows "\<exists>e. (\<exists>a'\<in>set addrs. getNodeStatus env a' = Inl e)
           \<and> withdrawMinipool env sched = (started addrs, Returned (Some e))"
proof -
  from receiveStatuses_some_failed[OF assms(4,5), of sched]
  obtain e where e: "\<exists>a'\<in>set addrs. getNodeStatus env a' = Inl e"
    and r: "receiveStatuses env sched addrs 0 [] = Inl e" by blast
  from withdrawMinipool_received[OF assms(1-3), of sched] r
  have "withdrawMinipool env sched = (started addrs, Returned (Some e))" by simp
  with e show ?thesis by blast
qed

theorem status_error_returned_as_is_witness:
  "newProvider (sampleEnv\<lparr>getNodeStatus := failingQuery\<rparr>) = None
   \<and> getWithdrawalAllowed (sampleEnv\<lparr>getNodeStatus := failingQuery\<rparr>) = Inr True
   \<and> getMinipoolAddresses (sampleEnv\<lparr>getNodeStatus := failingQuery\<rparr>) = Inr [10, 20, 30, 40]
   \<and> (30::nat) \<in> set [10, 20, 30, 40]
   \<and> getNodeStatus (sampleEnv\<lparr>getNodeStatus := failingQuery\<rparr>) 30 = Inl (External ''timeout'')
   \<and> withdrawMinipool (sampleEnv\<lparr>getNodeStatus := failingQuery\<rparr>) errorFirst
       = (started [10, 20, 30, 40], Returned (Some (External ''timeout'')))"
proof -
  let ?env = "sampleEnv\<lparr>getNodeStatus := failingQuery\<rparr>"
  have h1: "newProvider ?env = None" by (simp add: sampleEnv_def)
  have h2: "getWithdrawalAllowed ?env = Inr True" by (simp add: sampleEnv_def)
  have h3: "getMinipoolAddresses ?env = Inr [10, 20, 30, 40]" by (simp add: sampleEnv_def)
  have h4: "(30::nat) \<in> set [10, 20, 30, 40]" by simp
  have h5: "getNodeStatus ?env 30 = Inl (External ''timeout'')" by (simp add: failingQuery_def)
  have q: "\<And>a e. (failingQuery a = Inl e) = (a = 30 \<and> e = External ''timeout'')"
    by (auto simp: failingQuery_def)
  from status_error_returned_as_is[OF h1 h2 h3 h4 h5, of errorFirst]
  have "withdrawMinipool ?env errorFirst = (started [10, 20, 30, 40], Returned (Some (External ''timeout'')))"
    by (auto simp: q)
  with h1 h2 h3 h4 h5 show ?thesis by blast
qed

text \<open>
  Claim C7. When the withdrawals-enabled query returns false, the function prints the one
  line saying so and returns \<open>nil\<close>, with no status query, prompt or transaction; when
  the query fails, the function returns an error.
\<close>

theorem withdrawals_gate:
  assumes "newProvider env = None"
  shows "(getWithdrawalAllowed env = Inr False \<longrightarrow>
            withdrawMinipool env sched = ([WithdrawalAllowedQueried, Printed disabledLine], Returned None))
       \<and> (getWithdrawalAllowed env = Inl err \<longrightarrow>
            withdrawMinipool env sched =
              ([WithdrawalAllowedQueried],
               Returned (Some (New (''Error checking node withdrawals enabled status: '' @ Error err)))))"
  using assms by (simp add: withdrawMinipool_def)

theorem withdrawals_gate_witness:
  "newProvider (sampleEnv\<lparr>getWithdrawalAllowed := Inr False\<rparr>) = None
   \<and> getWithdrawalAllowed (sampleEnv\<lparr>getWithdrawalAllowed := Inr False\<rparr>) = Inr False
   \<and> withdrawMinipool (sampleEnv\<lparr>getWithdrawalAllowed := Inr False\<rparr>) statusFirst
       = ([WithdrawalAllowedQueried, Printed disabledLine], Returned None)
   \<and> newProvider (sampleEnv\<lparr>getWithdrawalAllowed := Inl (External ''no peers'')\<rparr>) = None
   \<and> getWithdrawalAllowed (sampleEnv\<lparr>getWithdrawalAllowed := Inl (External ''no peers'')\<rparr>)
       = Inl (External ''no peers'')
   \<and> withdrawMinipool (sampleEnv\<lparr>getWithdrawalAllowed := Inl (External ''no peers'')\<rparr>) statusFirst
       = ([WithdrawalAllowedQueried],
          Returned (Some (New ''Error checking node withdrawals enabled status: no peers'')))"
proof -
  let ?off = "sampleEnv\<lparr>getWithdrawalAllowed := Inr False\<rparr>"
  let ?bad = "sampleEnv\<lparr>getWithdrawalAllowed := Inl (External ''no peers'')\<rparr>"
  have h1: "newProvider ?off = None" by (simp add: sampleEnv_def)
  have h2: "getWithdrawalAllowed ?off = Inr False" by simp
  have h3: "newProvider ?bad = None" by (simp add: sampleEnv_def)
  have h4: "getWithdrawalAllowed ?bad = Inl (External ''no peers'')" by simp
  from withdrawals_gate[OF h1, where sched = statusFirst] h2
  have a: "withdrawMinipool ?off statusFirst
             = ([WithdrawalAllowedQueried, Printed disabledLine], Returned None)" by blast
  from withdrawals_gate[OF h3, where err = "External ''no peers''" and sched = statusFirst] h4
  have b: "withdrawMinipool ?bad statusFirst
             = ([WithdrawalAllowedQueried],
                Returned (Some (New ''Error checking node withdrawals enabled status: no peers'')))"
    by simp
  from h1 h2 h3 h4 a b show ?thesis by blast
qed

lemma filter_collected_none:
  "\<forall>a\<in>set addrs. \<exists>ns. getNodeStatus env a = Inr ns \<and> \<not> withdrawable ns \<Longrightarrow>
     filter withdrawable (collected env addrs) = []"
  by (induction addrs) auto

text \<open>
  Claim C8. When every status is collected and none has a deposit together with one of
  the states Initialized, Withdrawn and TimedOut, the function prints the line
  \<open>No minipools are currently available for withdrawal\<close> and nothing else, returns
  \<open>nil\<close>, and neither prompts nor asks for a transactor nor sends a transaction.
\<close>

theorem none_available:
  assumes "newProvider env = None" and "getWithdrawalAllowed env = Inr True"
    and "getMinipoolAddresses env = Inr addrs"
    and "\<forall>a\<in>set addrs. \<exists>ns. getNodeStatus env a = Inr ns
           \<and> \<not> (DepositExists ns \<and> Status ns \<in> {INITIALIZED, WITHDRAWN, TIMED_OUT})"
  shows "withdrawMinipool env sched = (started addrs @ [Printed noneAvailableLine], Returned None)
         \<and> printed (fst (withdrawMinipool env sched))
             = [''No minipools are currently available for withdrawal'']
         \<and> prompts (fst (withdrawMinipool env sched)) = 0
         \<and> attempts (fst (withdrawMinipool env sched)) = []
         \<and> sentTo (fst (withdrawMinipool env sched)) = []"
proof -
  from assms(4) have nw: "\<forall>a\<in>set addrs. \<exists>ns. getNodeStatus env a = Inr ns \<and> \<not> withdrawable ns"
    by (auto simp: withdrawable_def)
  then have ok: "\<forall>a\<in>set addrs. \<exists>ns. getNodeStatus env a = Inr ns" by blast
  from receiveStatuses_all_ok[OF ok, of sched] filter_collected_none[OF nw]
  have r: "receiveStatuses env sched addrs 0 [] = Inr []" by simp
  have run: "withdrawMinipool env sched = (started addrs @ [Printed noneAvailableLine], Returned None)"
    using withdrawMinipool_received[OF assms(1-3), of sched] r
    by (simp add: selectAndWithdraw_def)
  have p: "printed (map StatusQueried addrs @ evs) = printed evs" for evs
    by (induction addrs) simp_all
  have q: "prompts (map StatusQueried addrs @ evs) = prompts evs" for evs
    by (induction addrs) simp_all
  have t: "attempts (map StatusQueried addrs @ evs) = attempts evs" for evs
    by (induction addrs) simp_all
  have s: "sentTo (map StatusQueried addrs @ evs) = sentTo evs" for evs
    by (induction addrs) simp_all
  show ?thesis
    unfolding run by (simp add: started_def p q t s noneAvailableLine_def)
qed

theorem none_available_witness:
  "newProvider (sampleEnv\<lparr>getMinipoolAddresses := Inr [30, 50]\<rparr>) = None
   \<and> getWithdrawalAllowed (sampleEnv\<lparr>getMinipoolAddresses := Inr [30, 50]\<rparr>) = Inr True
   \<and> getMinipoolAddresses (sampleEnv\<lparr>getMinipoolAddresses := Inr [30, 50]\<rparr>) = Inr [30, 50]
   \<and> getNodeStatus (sampleEnv\<lparr>getMinipoolAddresses := Inr [30, 50]\<rparr>) 30 = Inr (sampleStatus 30)
   \<and> Status (sampleStatus 30) = OtherStatus 0
   \<and> getNodeStatus (sampleEnv\<lparr>getMinipoolAddresses := Inr [30, 50]\<rparr>) 50 = Inr (sampleStatus 50)
   \<and> \<not> DepositExists (sampleStatus 50)
   \<and> withdrawMinipool (sampleEnv\<lparr>getMinipoolAddresses := Inr [30, 50]\<rparr>) statusFirst
       = ([WithdrawalAllowedQueried, AddressesQueried, StatusQueried 30, StatusQueried 50,
           Printed ''No minipools are currently available for withdrawal''], Returned None)"
proof -
  let ?env = "sampleEnv\<lparr>getMinipoolAddresses := Inr [30, 50]\<rparr>"
  have h1: "newProvider ?env = None" by (simp add: sampleEnv_def)
  have h2: "getWithdrawalAllowed ?env = Inr True" by (simp add: sampleEnv_def)
  have h3: "getMinipoolAddresses ?env = Inr [30, 50]" by simp
  have h4: "\<forall>a\<in>set [30, 50]. \<exists>ns. getNodeStatus ?env a = Inr ns
           \<and> \<not> (DepositExists ns \<and> Status ns \<in> {INITIALIZED, WITHDRAWN, TIMED_OUT})"
    by (simp add: sampleEnv_def sampleStatus_def)
  from none_available[OF h1 h2 h3 h4, of statusFirst]
  have "withdrawMinipool ?env statusFirst
       = ([WithdrawalAllowedQueried, AddressesQueried, StatusQueried 30, StatusQueried 50,
           Printed ''No minipools are currently available for withdrawal''], Returned None)"
    by (simp add: started_def noneAvailableLine_def)
  with h1 h2 h3 show ?thesis by (simp add: sampleEnv_def sampleStatus_def)
qed

section \<open>The withdrawal loop\<close>

lemma failures_step:
  "mi < length addrs \<Longrightarrow>
     failures env addrs mi =
       (case fst (withdrawOne env mi (addrs ! mi)) of None \<Rightarrow> [] | Some line \<Rightarrow> [line])
         @ failures env addrs (mi + 1)"
  by (simp add: failures_def upt_conv_Cons List.map_filter_def split: option.splits)

lemma loopEvents_step:
  "mi < length addrs \<Longrightarrow>
     loopEvents env addrs mi = snd (withdrawOne env mi (addrs ! mi)) @ loopEvents env addrs (mi + 1)"
  by (simp add: loopEvents_def upt_conv_Cons)

lemma failures_done: "\<not> mi < length addrs \<Longrightarrow> failures env addrs mi = []"
  by (simp add: failures_def List.map_filter_def)

lemma loopEvents_done: "\<not> mi < length addrs \<Longrightarrow> loopEvents env addrs mi = []"
  by (simp add: loopEvents_def)

lemma withdrawLoop_eq:
  "withdrawLoop env addrs mi (errs, tr) =
     (errs @ failures env addrs mi, tr @ loopEvents env addrs mi)"
proof (induction env addrs mi "(errs, tr)" arbitrary: errs tr rule: withdrawLoop.induct)
  case (1 env addrs mi errs tr)
  show ?case
  proof (cases "mi < length addrs")
    case True
    obtain e evs where w: "withdrawOne env mi (addrs ! mi) = (e, evs)"
      by (cases "withdrawOne env mi (addrs ! mi)")
    show ?thesis
      using True w "1.hyps"[OF True refl w[symmetric]]
      by (subst withdrawLoop.simps)
         (simp add: failures_step loopEvents_step split: option.splits)
  next
    case False
    then show ?thesis
      by (subst withdrawLoop.simps) (simp add: failures_done loopEvents_done)
  qed
qed


lemma sentTo_append: "sentTo (xs @ ys) = sentTo xs @ sentTo ys"
  by (induction xs rule: sentTo.induct) simp_all

lemma printed_append: "printed (xs @ ys) = printed xs @ printed ys"
  by (induction xs rule: printed.induct) simp_all

lemma prompts_append: "prompts (xs @ ys) = prompts xs + prompts ys"
  by (induction xs rule: prompts.induct) simp_all


lemma sentTo_withdrawOne: "set (sentTo (snd (withdrawOne env i a))) \<subseteq> {a}"
  by (simp add: withdrawOne_def split: sum.splits)


lemma sentTo_loopEvents: "set (sentTo (loopEvents env addrs mi)) \<subseteq> set addrs"
proof (induction "length addrs - mi" arbitrary: mi)
  case 0
  then show ?case by (simp add: loopEvents_done)
next
  case (Suc n)
  then have lt: "mi < length addrs" and n: "n = length addrs - (mi + 1)" by simp_all
  from lt have "addrs ! mi \<in> set addrs" by simp
  with sentTo_withdrawOne[of env mi "addrs ! mi"]
  have "set (sentTo (snd (withdrawOne env mi (addrs ! mi)))) \<subseteq> set addrs" by blast
  with Suc.hyps(1)[OF n] lt show ?case
    by (simp add: loopEvents_step sentTo_append)
qed


lemma withdrawDeposits_eq:
  "withdrawDeposits env addrs =
     (loopEvents env addrs 0,
      if failures env addrs 0 = [] then Returned None
      else Returned (Some (New (Join (withdrawErrorsHeader # failures env addrs 0) [CHR 0x0A]))))"
  by (simp add: withdrawDeposits_def withdrawLoop_eq)



lemma withdrawOne_names_address:
  assumes "fst (withdrawOne env i a) = Some line"
  shows "\<exists>pre post. line = pre @ hex env a @ post"
proof -
  have e: "\<exists>pre post. p @ hex env a @ q = pre @ hex env a @ post" for p q by blast
  have "hex env a = hex env a @ []" by simp
  then have e': "\<exists>pre post. p @ hex env a = pre @ hex env a @ post" for p by metis
  from assms consider err where "line = transactorErrorLine env a err"
    | err where "line = transactionErrorLine env a err"
    | err where "line = eventErrorLine env a err"
    | "line = noEventLine env a"
    by (auto simp: withdrawOne_def split: sum.splits if_splits)
  then show ?thesis
  proof cases
    case 1
    then show ?thesis unfolding transactorErrorLine_def by (simp only: e)
  next
    case 2
    then show ?thesis unfolding transactionErrorLine_def by (simp only: e)
  next
    case 3
    then show ?thesis unfolding eventErrorLine_def by (simp only: e)
  next
    case 4
    then show ?thesis unfolding noEventLine_def by (simp only: e')
  qed
qed

lemma withdrawOne_error_text:
  assumes "CHR ''%'' \<notin> set (Error err)"
  shows "getNodeAccountTransactor env i = Inl err \<Longrightarrow>
           fst (withdrawOne env i a)
             = Some (''Error creating transactor for minipool '' @ hex env a @ '': '' @ Error err)"
    and "getNodeAccountTransactor env i = Inr t \<Longrightarrow> executeContractTransaction env t a = Inl err \<Longrightarrow>
           fst (withdrawOne env i a)
             = Some (''Error withdrawing deposit from minipool '' @ hex env a @ '': '' @ Error err)"
    and "getNodeAccountTransactor env i = Inr t \<Longrightarrow> executeContractTransaction env t a = Inr r \<Longrightarrow>
         getTransactionEvents env r a = Inl err \<Longrightarrow>
           fst (withdrawOne env i a)
             = Some (''Error retrieving node deposit withdrawal event for minipool '' @ hex env a
                       @ '': '' @ Error err)"
  using assms
  by (simp_all add: withdrawOne_def transactorErrorLine_def transactionErrorLine_def
      eventErrorLine_def formatRest_def)

lemma selectAndWithdraw_resolved:
  assumes "wm \<noteq> []" and "resolveAddresses wm (promptResponse env wm) = Inr as"
  shows "selectAndWithdraw env wm =
           (if as = []
            then ([Prompted (Join (promptLines env wm) [CHR 0x0A]) (selectionPattern wm) promptError,
                   Printed noneToWithdrawLine], Returned None)
            else (Prompted (Join (promptLines env wm) [CHR 0x0A]) (selectionPattern wm) promptError
                    # loopEvents env as 0,
                  if failures env as 0 = [] then Returned None
                  else Returned (Some (New (Join (withdrawErrorsHeader # failures env as 0) [CHR 0x0A])))))"
  using assms by (simp add: selectAndWithdraw_def withdrawDeposits_eq Let_def)

text \<open>
  Claim C5, where the code departs from it. The text of a collaborator's error is spliced
  into the format of \<open>fmt.Sprintf\<close>, so for every environment an error text that holds
  a \<open>%\<close>, such as \<open>at %[1]s\<close>, is printed as \<open>fmt\<close> reads it and not as it is. In
  the environment \<open>percentEnv\<close> the operator picks minipool \<open>20\<close>, the transactor is
  refused with that text, and the error the function returns reads \<open>at 20\<close> where the
  claim expects the message of the error.
\<close>

theorem error_text_is_part_of_format:
  "transactorErrorLine env a (External ''at %[1]s'')
     = ''Error creating transactor for minipool '' @ hex env a @ '': ''
         @ fmtVerbs env ''at %[1]s'' (hex env a)
   \<and> transactionErrorLine env a (External ''at %[1]s'')
     = ''Error withdrawing deposit from minipool '' @ hex env a @ '': ''
         @ fmtVerbs env ''at %[1]s'' (hex env a)
   \<and> eventErrorLine env a (External ''at %[1]s'')
     = ''Error retrieving node deposit withdrawal event for minipool '' @ hex env a @ '': ''
         @ fmtVerbs env ''at %[1]s'' (hex env a)
   \<and> resolveAddresses sampleWithdrawable (promptResponse percentEnv sampleWithdrawable) = Inr [20]
   \<and> getNodeAccountTransactor percentEnv 0 = Inl (External ''at %[1]s'')
   \<and> snd (withdrawMinipool percentEnv statusFirst)
     = Returned (Some (New (''Error withdrawing deposits from one or more minipools:'' @ [CHR 0x0A]
         @ ''Error creating transactor for minipool 20: at 20'')))"
proof -
  have a: "transactorErrorLine env a (External ''at %[1]s'')
     = ''Error creating transactor for minipool '' @ hex env a @ '': ''
         @ fmtVerbs env ''at %[1]s'' (hex env a)"
    by (simp add: transactorErrorLine_def formatRest_def)
  have b: "transactionErrorLine env a (External ''at %[1]s'')
     = ''Error withdrawing deposit from minipool '' @ hex env a @ '': ''
         @ fmtVerbs env ''at %[1]s'' (hex env a)"
    by (simp add: transactionErrorLine_def formatRest_def)
  have c: "eventErrorLine env a (External ''at %[1]s'')
     = ''Error retrieving node deposit withdrawal event for minipool '' @ hex env a @ '': ''
         @ fmtVerbs env ''at %[1]s'' (hex env a)"
    by (simp add: eventErrorLine_def formatRest_def)
  have d: "resolveAddresses sampleWithdrawable (promptResponse percentEnv sampleWithdrawable)
             = Inr [20]"
    by code_simp
  have e: "getNodeAccountTransactor percentEnv 0 = Inl (External ''at %[1]s'')"
    by (simp add: percentEnv_def)
  have f: "snd (withdrawMinipool percentEnv statusFirst)
     = Returned (Some (New (''Error withdrawing deposits from one or more minipools:'' @ [CHR 0x0A]
         @ ''Error creating transactor for minipool 20: at 20'')))"
    by code_simp
  from a b c d e f show ?thesis by blast
qed

section \<open>Decimal numerals\<close>

lemma of_char_digitChar: "d < 10 \<Longrightarrow> (of_char (digitChar d) :: nat) = 48 + d"
  by (simp add: digitChar_def)

lemma isDigit_digitChar: "d < 10 \<Longrightarrow> isDigit (digitChar d)"
  by (simp add: isDigit_def of_char_digitChar)

lemma digitVal_digitChar: "d < 10 \<Longrightarrow> digitVal (digitChar d) = d"
  by (simp add: digitVal_def of_char_digitChar)

lemma natToDec_not_Nil: "natToDec n \<noteq> []"
  by (subst natToDec.simps) simp

lemma natToDec_digits: "list_all isDigit (natToDec n)"
proof (induction n rule: natToDec.induct)
  case (1 n)
  then show ?case
    by (subst natToDec.simps) (simp add: isDigit_digitChar)
qed

lemma decVal_snoc: "decVal (ds @ [c]) = 10 * decVal ds + digitVal c"
  by (simp add: decVal_def)

lemma decVal_natToDec: "decVal (natToDec n) = n"
proof (induction n rule: natToDec.induct)
  case (1 n)
  show ?case
  proof (cases "n < 10")
    case True
    then show ?thesis
      by (subst natToDec.simps) (simp add: decVal_def digitVal_digitChar)
  next
    case False
    with 1 show ?thesis
      by (subst natToDec.simps) (simp add: decVal_snoc digitVal_digitChar)
  qed
qed

lemma isDigit_not_sign: "isDigit c \<Longrightarrow> c \<noteq> CHR ''-'' \<and> c \<noteq> CHR ''+''"
  by (auto simp: isDigit_def)

lemma isDigit_not_bar: "isDigit c \<Longrightarrow> c \<noteq> CHR ''|''"
  by (auto simp: isDigit_def)

lemma isDigit_not_a: "isDigit c \<Longrightarrow> c \<noteq> CHR ''a''"
  by (auto simp: isDigit_def)

lemma toLowerChar_isDigit: "isDigit c \<Longrightarrow> toLowerChar c = c"
  by (simp add: isDigit_def toLowerChar_def Let_def)

lemma toLowerChar_eq_digit:
  assumes "isDigit d" and "toLowerChar c = d"
  shows "c = d"
proof (cases "65 \<le> (of_char c :: nat) \<and> (of_char c :: nat) \<le> 90")
  case True
  with assms(2) have "d = char_of ((of_char c :: nat) + 32)" by (simp add: toLowerChar_def Let_def)
  then have "(of_char d :: nat) = ((of_char c :: nat) + 32) mod 256" by simp
  with True have "(of_char d :: nat) = (of_char c :: nat) + 32" by simp
  with True assms(1) show ?thesis by (simp add: isDigit_def)
next
  case False
  with assms(2) show ?thesis by (auto simp: toLowerChar_def Let_def)
qed

lemma ToLower_digits: "list_all isDigit ds \<Longrightarrow> ToLower ds = ds"
  by (induction ds) (simp_all add: ToLower_def toLowerChar_isDigit)

lemma ToLower_eq_digits:
  "list_all isDigit ds \<Longrightarrow> ToLower s = ds \<Longrightarrow> s = ds"
proof (induction ds arbitrary: s)
  case Nil
  then show ?case by (simp add: ToLower_def)
next
  case (Cons d ds)
  then obtain c cs where s: "s = c # cs" by (cases s) (auto simp: ToLower_def)
  with Cons.prems have "toLowerChar c = d" and "ToLower cs = ds" and "isDigit d" and "list_all isDigit ds"
    by (simp_all add: ToLower_def)
  with Cons.IH[of cs] toLowerChar_eq_digit[of d c] s show ?case by simp
qed

lemma Atoi_natToDec:
  "Atoi (natToDec n) = (if int n \<le> maxInt then (int n, False) else (maxInt, True))"
proof -
  obtain c cs where s: "natToDec n = c # cs"
    using natToDec_not_Nil[of n] by (cases "natToDec n") auto
  have d: "list_all isDigit (c # cs)" using natToDec_digits[of n] s by simp
  then have "c \<noteq> CHR ''-''" and "c \<noteq> CHR ''+''" using isDigit_not_sign[of c] by simp_all
  moreover have "decVal (c # cs) = n" using decVal_natToDec[of n] s by simp
  moreover have "- maxInt - 1 \<le> int n" by (simp add: maxInt_def)
  ultimately show ?thesis
    using d unfolding s Atoi_def by (simp add: Let_def)
qed

lemma Atoi_Itoa:
  "0 \<le> k \<Longrightarrow> Atoi (Itoa k) = (if k \<le> maxInt then (k, False) else (maxInt, True))"
  using Atoi_natToDec[of "nat k"] by (simp add: Itoa_def)

section \<open>Splitting and joining\<close>

lemma splitOn_not_Nil: "splitOn c s \<noteq> []"
  by (induction s) (auto split: list.splits)

lemma splitOn_no_sep: "c \<notin> set w \<Longrightarrow> splitOn c w = [w]"
  by (induction w) auto

lemma splitOn_append: "c \<notin> set w \<Longrightarrow> splitOn c (w @ c # rest) = w # splitOn c rest"
  by (induction w) auto

lemma splitOn_Join:
  "ws \<noteq> [] \<Longrightarrow> \<forall>w\<in>set ws. c \<notin> set w \<Longrightarrow> splitOn c (Join ws [c]) = ws"
proof (induction ws "[c]" rule: Join.induct)
  case 1
  then show ?case by simp
next
  case (2 x)
  then show ?case by (simp add: splitOn_no_sep)
next
  case (3 x y ys)
  then show ?case by (simp add: splitOn_append)
qed

lemma Join_append:
  "xs \<noteq> [] \<Longrightarrow> ys \<noteq> [] \<Longrightarrow> Join (xs @ ys) sep = Join xs sep @ sep @ Join ys sep"
proof (induction xs sep rule: Join.induct)
  case (1 sep)
  then show ?case by simp
next
  case (2 x sep)
  then show ?case by (cases ys) simp_all
next
  case (3 x y ys' sep)
  then show ?case by simp
qed

lemma stripPrefix_append: "stripPrefix p (p @ s) = Some s"
  by (induction p) simp_all

lemma stripSuffix_append: "stripSuffix suf (s @ suf) = Some s"
  by (simp add: stripSuffix_def stripPrefix_append)

section \<open>The selection pattern\<close>

lemma options_not_Nil: "wm \<noteq> [] \<Longrightarrow> options wm \<noteq> []"
  by (simp add: options_def)

lemma options_set: "set (options wm) = {Itoa k | k. 1 \<le> k \<and> k \<le> int (length wm)}"
proof -
  have "set (options wm) = (\<lambda>mi. Itoa (int mi + 1)) ` {0..<length wm}"
    by (simp add: options_def)
  also have "\<dots> = {Itoa k | k. 1 \<le> k \<and> k \<le> int (length wm)}"
  proof (intro set_eqI iffI)
    fix s assume "s \<in> (\<lambda>mi. Itoa (int mi + 1)) ` {0..<length wm}"
    then obtain mi where "mi < length wm" and "s = Itoa (int mi + 1)" by auto
    then show "s \<in> {Itoa k | k. 1 \<le> k \<and> k \<le> int (length wm)}" by force
  next
    fix s assume "s \<in> {Itoa k | k. 1 \<le> k \<and> k \<le> int (length wm)}"
    then obtain k where k: "1 \<le> k" "k \<le> int (length wm)" and s: "s = Itoa k" by auto
    then have "nat (k - 1) \<in> {0..<length wm}" and "int (nat (k - 1)) + 1 = k" by auto
    with s show "s \<in> (\<lambda>mi. Itoa (int mi + 1)) ` {0..<length wm}" by force
  qed
  finally show ?thesis .
qed

lemma Itoa_digits: "0 \<le> k \<Longrightarrow> list_all isDigit (Itoa k)"
  by (simp add: Itoa_def natToDec_digits)

lemma options_digits: "o' \<in> set (options wm) \<Longrightarrow> list_all isDigit o'"
  unfolding options_set by (auto simp: Itoa_digits)

lemma selectionPattern_body:
  assumes "wm \<noteq> []"
  shows "selectionPattern wm = ''(?i)^('' @ Join (options wm @ [''a'', ''all'']) ''|'' @ '')$''"
  using Join_append[OF options_not_Nil[OF assms], of "[''a'', ''all'']" "''|''"]
  by (simp add: selectionPattern_def)

lemma alternatives_no_bar:
  "\<forall>w\<in>set (options wm @ [''a'', ''all'']). CHR ''|'' \<notin> set w"
proof
  fix w assume "w \<in> set (options wm @ [''a'', ''all''])"
  then consider "w \<in> set (options wm)" | "w = ''a''" | "w = ''all''" by auto
  then show "CHR ''|'' \<notin> set w"
  proof cases
    case 1
    then have "list_all isDigit w" by (rule options_digits)
    then show ?thesis using isDigit_not_bar by (auto simp: list_all_iff)
  qed simp_all
qed

lemma MatchString_selectionPattern:
  assumes "wm \<noteq> []"
  shows "MatchString (selectionPattern wm) s =
           (ToLower s \<in> set (map ToLower (options wm @ [''a'', ''all''])))"
proof -
  let ?alts = "options wm @ [''a'', ''all'']"
  have sp: "splitOn CHR ''|'' (Join ?alts ''|'') = ?alts"
    by (rule splitOn_Join) (simp_all add: alternatives_no_bar del: set_append)
  have p: "stripPrefix ''(?i)^('' (selectionPattern wm) = Some (Join ?alts ''|'' @ '')$'')"
    unfolding selectionPattern_body[OF assms] by (rule stripPrefix_append)
  have q: "stripSuffix '')$'' (Join ?alts ''|'' @ '')$'') = Some (Join ?alts ''|'')"
    by (rule stripSuffix_append)
  have "MatchString (selectionPattern wm) s =
          (case stripSuffix '')$'' (Join ?alts ''|'' @ '')$'') of
             None \<Rightarrow> False
           | Some body \<Rightarrow> ToLower s \<in> set (map ToLower (splitOn CHR ''|'' body)))"
    unfolding MatchString_def p by (simp only: option.case)
  also have "\<dots> = (ToLower s \<in> set (map ToLower (splitOn CHR ''|'' (Join ?alts ''|''))))"
    by (subst q) (simp only: option.case)
  finally show ?thesis by (simp only: sp)
qed

lemma ToLower_a: "ToLower ''a'' = ''a''" and ToLower_all: "ToLower ''all'' = ''all''"
  by (simp_all add: ToLower_def toLowerChar_def)

lemma accepted_cases:
  assumes "wm \<noteq> []" and "MatchString (selectionPattern wm) s"
  shows "(\<exists>k. 1 \<le> k \<and> k \<le> int (length wm) \<and> s = Itoa k) \<or> ToLower s = ''a'' \<or> ToLower s = ''all''"
proof -
  from assms have "ToLower s \<in> set (map ToLower (options wm @ [''a'', ''all'']))"
    by (simp add: MatchString_selectionPattern)
  then consider o' where "o' \<in> set (options wm)" "ToLower s = ToLower o'"
    | "ToLower s = ''a''" | "ToLower s = ''all''"
    by (auto simp: ToLower_a ToLower_all)
  then show ?thesis
  proof cases
    case 1
    from 1(1) have d: "list_all isDigit o'" by (rule options_digits)
    with 1(2) have "ToLower s = o'" by (simp add: ToLower_digits)
    with d have "s = o'" by (rule ToLower_eq_digits)
    with 1(1) show ?thesis unfolding options_set by auto
  qed simp_all
qed

lemma Itoa_accepted:
  assumes "1 \<le> k" and "k \<le> int (length wm)"
  shows "MatchString (selectionPattern wm) (Itoa k)"
proof -
  from assms have ne: "wm \<noteq> []" by auto
  from assms have "Itoa k \<in> set (options wm)" unfolding options_set by auto
  then show ?thesis
    unfolding MatchString_selectionPattern[OF ne] by auto
qed

lemma all_token_accepted:
  assumes "wm \<noteq> []" and "ToLower s = ''a'' \<or> ToLower s = ''all''"
  shows "MatchString (selectionPattern wm) s"
  using assms(2) unfolding MatchString_selectionPattern[OF assms(1)]
  by (auto simp: ToLower_a ToLower_all)

lemma all_token_first:
  assumes "ToLower s = ''a'' \<or> ToLower s = ''all''"
  shows "s \<noteq> [] \<and> ToLower (take 1 s) = ''a''"
proof -
  from assms obtain c cs where "s = c # cs" by (cases s) (auto simp: ToLower_def)
  with assms show ?thesis by (auto simp: ToLower_def)
qed

lemma numeral_first:
  assumes "0 \<le> k"
  shows "Itoa k \<noteq> [] \<and> ToLower (take 1 (Itoa k)) \<noteq> ''a''"
proof -
  obtain c cs where s: "Itoa k = c # cs"
    using natToDec_not_Nil[of "nat k"] assms by (cases "Itoa k") (auto simp: Itoa_def)
  from Itoa_digits[OF assms] s have "isDigit c" by simp
  then have "toLowerChar c = c" and "c \<noteq> CHR ''a''"
    by (simp_all add: toLowerChar_isDigit isDigit_not_a)
  with s show ?thesis by (simp add: ToLower_def)
qed

section \<open>Resolving the response\<close>

lemma resolveAddresses_all:
  assumes "ToLower s = ''a'' \<or> ToLower s = ''all''"
  shows "resolveAddresses wm s =
           Inr (map Address (filter (\<lambda>minipoolStatus. Status minipoolStatus \<noteq> INITIALIZED) wm))"
  using all_token_first[OF assms] by (simp add: resolveAddresses_def)

lemma resolveAddresses_numeral:
  assumes "1 \<le> k" and "k \<le> int (length wm)" and "k \<le> maxInt"
  shows "resolveAddresses wm (Itoa k) = Inr [Address (wm ! nat (k - 1))]"
proof -
  from assms(1) have k0: "0 \<le> k" by simp
  from numeral_first[OF k0] Atoi_Itoa[OF k0] assms show ?thesis
    by (simp add: resolveAddresses_def Let_def)
qed

lemma resolveAddresses_subset:
  assumes "resolveAddresses wm s = Inr as"
  shows "set as \<subseteq> Address ` set wm"
proof -
  have "nat (i - 1) < length wm \<Longrightarrow> Address (wm ! nat (i - 1)) \<in> Address ` set wm" for i :: int
    by simp
  with assms show ?thesis
    by (auto simp: resolveAddresses_def Let_def split: if_splits)
qed

lemma all_token_not_number:
  assumes "ToLower s = ''a'' \<or> ToLower s = ''all''"
  shows "Atoi s = (0, True)"
proof -
  from assms obtain c cs where s: "s = c # cs" and c: "toLowerChar c = CHR ''a''"
    by (cases s) (auto simp: ToLower_def)
  have "\<not> isDigit c"
  proof
    assume "isDigit c"
    then have "toLowerChar c = c" and "c \<noteq> CHR ''a''"
      by (simp_all add: toLowerChar_isDigit isDigit_not_a)
    with c show False by simp
  qed
  moreover from c have "c \<noteq> CHR ''-''" and "c \<noteq> CHR ''+''"
    by (auto simp: toLowerChar_def)
  ultimately show ?thesis unfolding s Atoi_def by (simp add: Let_def)
qed

lemma MatchString_empty_list:
  "MatchString (selectionPattern []) s = (ToLower s = [] \<or> ToLower s = ''a'' \<or> ToLower s = ''all'')"
  by (simp add: MatchString_def selectionPattern_def options_def stripSuffix_def ToLower_def
      toLowerChar_def)

lemma accepted_number:
  assumes "MatchString (selectionPattern wm) s" and "Atoi s = (k, False)"
  shows "1 \<le> k \<and> k \<le> int (length wm) \<and> k \<le> maxInt \<and> s = Itoa k"
proof (cases "wm = []")
  case True
  with assms(1) consider "s = []" | "ToLower s = ''a'' \<or> ToLower s = ''all''"
    by (auto simp: MatchString_empty_list ToLower_def)
  then show ?thesis
  proof cases
    case 1
    with assms(2) show ?thesis by (simp add: Atoi_def)
  next
    case 2
    from all_token_not_number[OF 2] assms(2) show ?thesis by simp
  qed
next
  case False
  from accepted_cases[OF False assms(1)]
  consider k' where "1 \<le> k'" "k' \<le> int (length wm)" "s = Itoa k'"
    | "ToLower s = ''a'' \<or> ToLower s = ''all''" by blast
  then show ?thesis
  proof cases
    case 1
    from 1(1) have "0 \<le> k'" by simp
    from Atoi_Itoa[OF this] assms(2) 1(3) have "k' \<le> maxInt \<and> k = k'"
      by (auto split: if_splits)
    with 1 show ?thesis by simp
  next
    case 2
    from all_token_not_number[OF 2] assms(2) show ?thesis by simp
  qed
qed

text \<open>
  Claim C10. For a non-empty filtered list whose length fits an \<open>int\<close>, a response that
  the selection pattern accepts is not empty; when its first character is not \<open>a\<close> or
  \<open>A\<close> it is the decimal numeral of some \<open>k\<close> between \<open>1\<close> and the length of the
  list, \<open>Atoi\<close> returns \<open>k\<close> without error and \<open>k - 1\<close> is an index of the list. So
  neither the slice expression nor the index expression panics.
\<close>

theorem accepted_response_is_safe:
  assumes "wm \<noteq> []" and "int (length wm) \<le> maxInt"
    and "MatchString (selectionPattern wm) response"
  shows "response \<noteq> []
       \<and> (ToLower (take 1 response) \<noteq> ''a'' \<longrightarrow>
            (\<exists>k. 1 \<le> k \<and> k \<le> int (length wm) \<and> response = Itoa k
               \<and> Atoi response = (k, False) \<and> nat (k - 1) < length wm
               \<and> resolveAddresses wm response = Inr [Address (wm ! nat (k - 1))]))
       \<and> (\<exists>as. resolveAddresses wm response = Inr as)
       \<and> (promptResponse env wm = response \<longrightarrow> (\<exists>r. snd (selectAndWithdraw env wm) = Returned r))"
proof -
  from accepted_cases[OF assms(1,3)]
  consider k where "1 \<le> k" "k \<le> int (length wm)" "response = Itoa k"
    | "ToLower response = ''a'' \<or> ToLower response = ''all''" by blast
  then have main: "response \<noteq> []
       \<and> (ToLower (take 1 response) \<noteq> ''a'' \<longrightarrow>
            (\<exists>k. 1 \<le> k \<and> k \<le> int (length wm) \<and> response = Itoa k
               \<and> Atoi response = (k, False) \<and> nat (k - 1) < length wm
               \<and> resolveAddresses wm response = Inr [Address (wm ! nat (k - 1))]))
       \<and> (\<exists>as. resolveAddresses wm response = Inr as)"
  proof cases
    case 1
    from 1(1) have k0: "0 \<le> k" by simp
    from 1(2) assms(2) have km: "k \<le> maxInt" by simp
    from 1(1,2) have "nat (k - 1) < length wm" by auto
    with numeral_first[OF k0] Atoi_Itoa[OF k0] km resolveAddresses_numeral[OF 1(1,2) km] 1
    show ?thesis by auto
  next
    case 2
    from all_token_first[OF 2] resolveAddresses_all[OF 2, of wm] show ?thesis by simp
  qed
  have "\<exists>r. snd (selectAndWithdraw env wm) = Returned r" if p: "promptResponse env wm = response"
  proof -
    from main obtain as where "resolveAddresses wm response = Inr as" by blast
    with p have "resolveAddresses wm (promptResponse env wm) = Inr as" by simp
    from selectAndWithdraw_resolved[OF assms(1) this] show ?thesis by simp
  qed
  with main show ?thesis by blast
qed

theorem accepted_response_is_safe_witness:
  "sampleWithdrawable \<noteq> [] \<and> int (length sampleWithdrawable) \<le> maxInt
   \<and> MatchString (selectionPattern sampleWithdrawable) ''3''
   \<and> ToLower (take 1 ''3'') \<noteq> ''a''
   \<and> Atoi ''3'' = (3, False)
   \<and> resolveAddresses sampleWithdrawable ''3'' = Inr [40]"
proof -
  have h1: "sampleWithdrawable \<noteq> []" by (simp add: sampleWithdrawable_def)
  have h2: "int (length sampleWithdrawable) \<le> maxInt"
    by (simp add: sampleWithdrawable_def maxInt_def)
  have h3: "MatchString (selectionPattern sampleWithdrawable) ''3''" by code_simp
  have n: "ToLower (take 1 ''3'') \<noteq> ''a''" by code_simp
  have a: "Atoi ''3'' = (3, False)" by code_simp
  have e: "Address (sampleWithdrawable ! nat (3 - 1)) = 40"
    by (simp add: sampleWithdrawable_def sampleStatus_def)
  from accepted_response_is_safe[OF h1 h2 h3] n
  obtain k where "Atoi ''3'' = (k, False)"
    and "resolveAddresses sampleWithdrawable ''3'' = Inr [Address (sampleWithdrawable ! nat (k - 1))]"
    by blast
  with a e have "resolveAddresses sampleWithdrawable ''3'' = Inr [40]" by simp
  with h1 h2 h3 n a show ?thesis by blast
qed

text \<open>
  Claim C9. An accepted response that \<open>Atoi\<close> reads as the number \<open>k\<close> is the numeral
  of \<open>k\<close>, with \<open>k\<close> between \<open>1\<close> and the length of the filtered list, and it resolves
  to the one address of the \<open>k\<close>-th item of the filtered list, counted from \<open>1\<close>.
\<close>

theorem numeric_response_selects_kth:
  assumes "MatchString (selectionPattern wm) response" and "Atoi response = (k, False)"
  shows "1 \<le> k \<and> k \<le> int (length wm) \<and> response = Itoa k
       \<and> resolveAddresses wm response = Inr [Address (wm ! nat (k - 1))]"
proof -
  from accepted_number[OF assms]
  have k: "1 \<le> k" "k \<le> int (length wm)" "k \<le> maxInt" and r: "response = Itoa k" by simp_all
  from resolveAddresses_numeral[OF k] k r show ?thesis by simp
qed

theorem numeric_response_selects_kth_witness:
  "MatchString (selectionPattern sampleWithdrawable) ''2'' \<and> Atoi ''2'' = (2, False)
   \<and> resolveAddresses sampleWithdrawable ''2'' = Inr [20]"
proof -
  have h1: "MatchString (selectionPattern sampleWithdrawable) ''2''" by code_simp
  have h2: "Atoi ''2'' = (2, False)" by code_simp
  have e: "Address (sampleWithdrawable ! nat (2 - 1)) = 20"
    by (simp add: sampleWithdrawable_def sampleStatus_def)
  from numeric_response_selects_kth[OF h1 h2]
  have "resolveAddresses sampleWithdrawable ''2''
          = Inr [Address (sampleWithdrawable ! nat (2 - 1))]" by blast
  then have "resolveAddresses sampleWithdrawable ''2'' = Inr [20]" by (simp only: e)
  with h1 h2 show ?thesis by blast
qed

section \<open>Selection within the whole function\<close>

lemma sentTo_selectAndWithdraw:
  "set (sentTo (fst (selectAndWithdraw env wm))) \<subseteq> Address ` set wm"
proof (cases "wm = []")
  case True
  then show ?thesis by (simp add: selectAndWithdraw_def)
next
  case False
  show ?thesis
  proof (cases "resolveAddresses wm (promptResponse env wm)")
    case (Inl p)
    with False show ?thesis by (simp add: selectAndWithdraw_def Let_def)
  next
    case (Inr as)
    from sentTo_loopEvents[of env as 0] resolveAddresses_subset[OF Inr]
    have "set (sentTo (loopEvents env as 0)) \<subseteq> Address ` set wm" by blast
    then show ?thesis
      unfolding selectAndWithdraw_resolved[OF False Inr] by simp
  qed
qed

lemma sentTo_started: "sentTo (started addrs @ evs) = sentTo evs"
proof -
  have "sentTo (map StatusQueried addrs @ evs) = sentTo evs"
    by (induction addrs) simp_all
  then show ?thesis by (simp add: started_def)
qed

lemma collected_set:
  "set (collected env addrs) = {ns. \<exists>a\<in>set addrs. getNodeStatus env a = Inr ns}"
  by (induction addrs) (auto split: sum.splits)

text \<open>
  Claim C2. When the statuses are collected, a collected status is in the filtered list
  exactly when its deposit exists and its state is Initialized, Withdrawn or TimedOut;
  every address a response resolves to, and every address a transaction is sent to,
  is the address of such a status.
\<close>

theorem withdrawable_filter:
  assumes "newProvider env = None" and "getWithdrawalAllowed env = Inr True"
    and "getMinipoolAddresses env = Inr addrs"
    and "receiveStatuses env sched addrs 0 [] = Inr wm"
  shows "(\<forall>a\<in>set addrs. \<exists>ns. getNodeStatus env a = Inr ns
            \<and> ((ns \<in> set wm) =
                 (DepositExists ns \<and> Status ns \<in> {INITIALIZED, WITHDRAWN, TIMED_OUT})))
       \<and> wm = filter withdrawable (collected env addrs)
       \<and> (resolveAddresses wm response = Inr as \<longrightarrow> set as \<subseteq> Address ` set wm)
       \<and> set (sentTo (fst (withdrawMinipool env sched)))
           \<subseteq> Address ` {ns \<in> set (collected env addrs).
                          DepositExists ns \<and> Status ns \<in> {INITIALIZED, WITHDRAWN, TIMED_OUT}}"
proof -
  from receiveStatuses_Inr[OF assms(4)]
  have ok: "\<forall>a\<in>set addrs. \<exists>ns. getNodeStatus env a = Inr ns"
    and wm: "wm = filter withdrawable (collected env addrs)" by simp_all
  have w: "withdrawable ns = (DepositExists ns \<and> Status ns \<in> {INITIALIZED, WITHDRAWN, TIMED_OUT})" for ns
    by (auto simp: withdrawable_def)
  have a: "\<forall>a\<in>set addrs. \<exists>ns. getNodeStatus env a = Inr ns
            \<and> ((ns \<in> set wm) =
                 (DepositExists ns \<and> Status ns \<in> {INITIALIZED, WITHDRAWN, TIMED_OUT}))"
  proof
    fix a assume a: "a \<in> set addrs"
    with ok obtain ns where q: "getNodeStatus env a = Inr ns" by blast
    with a have "ns \<in> set (collected env addrs)" unfolding collected_set by blast
    then have "(ns \<in> set wm) = withdrawable ns" unfolding wm by simp
    with q show "\<exists>ns. getNodeStatus env a = Inr ns
            \<and> ((ns \<in> set wm) =
                 (DepositExists ns \<and> Status ns \<in> {INITIALIZED, WITHDRAWN, TIMED_OUT}))"
      unfolding w by blast
  qed
  have b: "resolveAddresses wm response = Inr as \<longrightarrow> set as \<subseteq> Address ` set wm"
    using resolveAddresses_subset by blast
  have "fst (withdrawMinipool env sched) = started addrs @ fst (selectAndWithdraw env wm)"
    using withdrawMinipool_received[OF assms(1-3), of sched] assms(4) by simp
  then have "set (sentTo (fst (withdrawMinipool env sched))) \<subseteq> Address ` set wm"
    using sentTo_selectAndWithdraw[of env wm] by (simp add: sentTo_started)
  moreover have "set wm = {ns \<in> set (collected env addrs).
                          DepositExists ns \<and> Status ns \<in> {INITIALIZED, WITHDRAWN, TIMED_OUT}}"
    unfolding wm using w by auto
  ultimately have c: "set (sentTo (fst (withdrawMinipool env sched)))
           \<subseteq> Address ` {ns \<in> set (collected env addrs).
                          DepositExists ns \<and> Status ns \<in> {INITIALIZED, WITHDRAWN, TIMED_OUT}}"
    by simp
  from a wm b c show ?thesis by blast
qed

theorem withdrawable_filter_witness:
  "newProvider sampleEnv = None \<and> getWithdrawalAllowed sampleEnv = Inr True
   \<and> getMinipoolAddresses sampleEnv = Inr [10, 20, 30, 40]
   \<and> receiveStatuses sampleEnv statusFirst [10, 20, 30, 40] 0 [] = Inr sampleWithdrawable
   \<and> sampleWithdrawable = filter withdrawable (collected sampleEnv [10, 20, 30, 40])
   \<and> set (sentTo (fst (withdrawMinipool sampleEnv statusFirst)))
           \<subseteq> Address ` {ns \<in> set (collected sampleEnv [10, 20, 30, 40]).
                          DepositExists ns \<and> Status ns \<in> {INITIALIZED, WITHDRAWN, TIMED_OUT}}"
proof -
  have h1: "newProvider sampleEnv = None" by (simp add: sampleEnv_def)
  have h2: "getWithdrawalAllowed sampleEnv = Inr True" by (simp add: sampleEnv_def)
  have h3: "getMinipoolAddresses sampleEnv = Inr [10, 20, 30, 40]" by (simp add: sampleEnv_def)
  have h4: "receiveStatuses sampleEnv statusFirst [10, 20, 30, 40] 0 [] = Inr sampleWithdrawable"
    by code_simp
  from withdrawable_filter[OF h1 h2 h3 h4] h1 h2 h3 h4 show ?thesis by blast
qed

text \<open>
  Claim C3. A response that is \<open>a\<close> or \<open>all\<close> up to case is accepted and resolves to
  the addresses of the filtered statuses whose state is not Initialized, in the order
  of the filtered list. When every filtered status is Initialized the function prints
  \<open>No minipools to withdraw\<close> after the prompt and returns \<open>nil\<close>, with no transaction.
\<close>

theorem all_token_selects_non_initialized:
  assumes "newProvider env = None" and "getWithdrawalAllowed env = Inr True"
    and "getMinipoolAddresses env = Inr addrs"
    and "receiveStatuses env sched addrs 0 [] = Inr wm" and "wm \<noteq> []"
    and "ToLower response = ''a'' \<or> ToLower response = ''all''"
    and "promptResponse env wm = response"
  shows "MatchString (selectionPattern wm) response
       \<and> resolveAddresses wm response =
           Inr (map Address (filter (\<lambda>minipoolStatus. Status minipoolStatus \<noteq> INITIALIZED) wm))
       \<and> ((\<forall>ns\<in>set wm. Status ns = INITIALIZED) \<longrightarrow>
            withdrawMinipool env sched =
              (started addrs @
                 [Prompted (Join (promptLines env wm) [CHR 0x0A]) (selectionPattern wm) promptError,
                  Printed ''No minipools to withdraw''],
               Returned None))"
proof -
  note r = resolveAddresses_all[OF assms(6), of wm]
  have "withdrawMinipool env sched =
              (started addrs @
                 [Prompted (Join (promptLines env wm) [CHR 0x0A]) (selectionPattern wm) promptError,
                  Printed ''No minipools to withdraw''],
               Returned None)" if i: "\<forall>ns\<in>set wm. Status ns = INITIALIZED"
  proof -
    from i have "filter (\<lambda>minipoolStatus. Status minipoolStatus \<noteq> INITIALIZED) wm = []"
      by (simp add: filter_empty_conv)
    with r assms(7) have "resolveAddresses wm (promptResponse env wm) = Inr []" by simp
    from selectAndWithdraw_resolved[OF assms(5) this]
      withdrawMinipool_received[OF assms(1-3), of sched] assms(4)
    show ?thesis by (simp add: noneToWithdrawLine_def)
  qed
  with all_token_accepted[OF assms(5,6)] r show ?thesis by blast
qed

theorem all_token_selects_non_initialized_witness:
  "newProvider (sampleEnv\<lparr>getMinipoolAddresses := Inr [10, 30]\<rparr>) = None
   \<and> getWithdrawalAllowed (sampleEnv\<lparr>getMinipoolAddresses := Inr [10, 30]\<rparr>) = Inr True
   \<and> getMinipoolAddresses (sampleEnv\<lparr>getMinipoolAddresses := Inr [10, 30]\<rparr>) = Inr [10, 30]
   \<and> receiveStatuses (sampleEnv\<lparr>getMinipoolAddresses := Inr [10, 30]\<rparr>) statusFirst [10, 30] 0 []
       = Inr [sampleStatus 10]
   \<and> ToLower ''A'' = ''a''
   \<and> promptResponse (sampleEnv\<lparr>getMinipoolAddresses := Inr [10, 30]\<rparr>) [sampleStatus 10] = ''A''
   \<and> Status (sampleStatus 10) = INITIALIZED
   \<and> resolveAddresses [sampleStatus 10] ''A'' = Inr []
   \<and> snd (withdrawMinipool (sampleEnv\<lparr>getMinipoolAddresses := Inr [10, 30]\<rparr>) statusFirst)
       = Returned None
   \<and> printed (fst (withdrawMinipool (sampleEnv\<lparr>getMinipoolAddresses := Inr [10, 30]\<rparr>) statusFirst))
       = [''No minipools to withdraw'']"
proof -
  let ?env = "sampleEnv\<lparr>getMinipoolAddresses := Inr [10, 30]\<rparr>"
  have h1: "newProvider ?env = None" by (simp add: sampleEnv_def)
  have h2: "getWithdrawalAllowed ?env = Inr True" by (simp add: sampleEnv_def)
  have h3: "getMinipoolAddresses ?env = Inr [10, 30]" by simp
  have h4: "receiveStatuses ?env statusFirst [10, 30] 0 [] = Inr [sampleStatus 10]" by code_simp
  have h5: "[sampleStatus 10] \<noteq> []" by simp
  have l: "ToLower ''A'' = ''a''" by code_simp
  then have h6: "ToLower ''A'' = ''a'' \<or> ToLower ''A'' = ''all''" by simp
  have h7: "promptResponse ?env [sampleStatus 10] = ''A''"
    by (simp add: promptResponse_def sampleEnv_def)
  have i: "Status (sampleStatus 10) = INITIALIZED" by (simp add: sampleStatus_def)
  then have i': "\<forall>ns\<in>set [sampleStatus 10]. Status ns = INITIALIZED" by simp
  have p: "printed (started [10, 30] @ [Prompted t pat e, Printed ''No minipools to withdraw''])
             = [''No minipools to withdraw'']" for t pat e
    by (simp add: started_def)
  from all_token_selects_non_initialized[OF h1 h2 h3 h4 h5 h6 h7] i i'
  have "resolveAddresses [sampleStatus 10] ''A'' = Inr []"
    and "snd (withdrawMinipool ?env statusFirst) = Returned None"
    and "printed (fst (withdrawMinipool ?env statusFirst)) = [''No minipools to withdraw'']"
    by (simp_all add: p)
  with h1 h2 h3 h4 l h7 i show ?thesis by blast
qed

end
